theory Spec2Isabelle
  imports Main
begin

section \<open>Python strings and integers used by \<open>validate_filter_ip.py\<close>\<close>

text \<open>
  The script manipulates byte strings (Python 2 on EOS); a string is a \<open>char list\<close>.
  Python's \<open>int\<close> is unbounded and is modelled by \<open>int\<close>.
\<close>

datatype error =
    SystemExit string    \<comment> \<open>\<open>exit(msg)\<close>\<close>
  | IndexError           \<comment> \<open>\<open>parts[3]\<close> out of range\<close>
  | ValueError           \<comment> \<open>\<open>int(s)\<close> on a string that is no number\<close>

definition is_digit :: "char \<Rightarrow> bool" where
  "is_digit c = (48 \<le> (of_char c :: nat) \<and> (of_char c :: nat) \<le> 57)"

definition digit_val :: "char \<Rightarrow> nat" where
  "digit_val c = of_char c - 48"

definition digit_char :: "nat \<Rightarrow> char" where
  "digit_char n = char_of (48 + n)"

definition digits_val :: "string \<Rightarrow> nat" where
  "digits_val s = foldl (\<lambda>n c. 10 * n + digit_val c) 0 s"

text \<open>
  \<open>int(s)\<close>: the decimal value of a string of digits, \<open>ValueError\<close> (here \<open>None\<close>)
  otherwise. Python also accepts a sign and surrounding blanks; \<open>network_s31\<close> calls
  \<open>int\<close> only on a part that \<open>inet_pton\<close> has accepted, which has digits only.
\<close>

definition python_int :: "string \<Rightarrow> int option" where
  "python_int s = (if s \<noteq> [] \<and> list_all is_digit s then Some (int (digits_val s)) else None)"

fun str_nat :: "nat \<Rightarrow> string" where
  "str_nat n = (if n < 10 then [digit_char n] else str_nat (n div 10) @ [digit_char (n mod 10)])"

declare str_nat.simps [simp del]

text \<open>\<open>str(i)\<close> for a Python integer.\<close>

definition python_str :: "int \<Rightarrow> string" where
  "python_str i = (if i < 0 then CHR ''-'' # str_nat (nat (- i)) else str_nat (nat i))"

text \<open>\<open>s.split(c)\<close> for a one-character separator: \<open>''''.split('.')\<close> is \<open>['''']\<close>.\<close>

fun split :: "char \<Rightarrow> string \<Rightarrow> string list" where
  "split c [] = [[]]"
| "split c (x # xs) =
     (if x = c then [] # split c xs
      else (case split c xs of [] \<Rightarrow> [[x]] | p # ps \<Rightarrow> (x # p) # ps))"

section \<open>\<open>is_valid_ipv4_address\<close> and \<open>network_s31\<close>\<close>

text \<open>
  Modelled from the spec: \<open>socket.inet_pton(socket.AF_INET, address)\<close> belongs to the
  platform's C library and is not part of the repository. It accepts exactly the strings
  of four dot-separated decimal octets in range 0-255, an octet being one to three digits
  without a leading zero (a lone \<open>0\<close> apart), and raises \<open>socket.error\<close> on anything else.
\<close>

definition octet_ok :: "string \<Rightarrow> bool" where
  "octet_ok p = (p \<noteq> [] \<and> list_all is_digit p \<and> (length p = 1 \<or> hd p \<noteq> CHR ''0'')
                  \<and> digits_val p \<le> 255)"

definition inet_pton :: "string \<Rightarrow> bool" where
  "inet_pton address =
     (let ps = split CHR ''.'' address in length ps = 4 \<and> list_all octet_ok ps)"

text \<open>
  \<open>is_valid_ipv4_address\<close>: \<open>True\<close> when \<open>inet_pton\<close> returns, \<open>False\<close> when it raises
  \<open>socket.error\<close>. The \<open>AttributeError\<close> branch is for platforms without \<open>inet_pton\<close>;
  EOS (Linux) and macOS, the two platforms \<open>checkOS\<close> supports, have it.
\<close>

definition is_valid_ipv4_address :: "string \<Rightarrow> bool" where
  "is_valid_ipv4_address address = inet_pton address"

definition network_s31 :: "string \<Rightarrow> error + string" where
  "network_s31 address =
     (if CHR '':'' \<in> set address then Inl (SystemExit ''IPv6 not currently supported'')
      else if \<not> is_valid_ipv4_address address
        then Inl (SystemExit (''address '' @ address @ '' does not appear to be valid''))
      else
        let parts = split CHR ''.'' address in
        if length parts < 4 then Inl IndexError
        else (case python_int (parts ! 3) of
                None \<Rightarrow> Inl ValueError
              | Some n \<Rightarrow>
                  if n mod 2 = 1
                  then Inr (parts ! 0 @ ''.'' @ parts ! 1 @ ''.'' @ parts ! 2 @ ''.''
                            @ python_str (n - 1) @ ''/31'')
                  else Inr (address @ ''/31'')))"

text \<open>The dotted-quad text of the IPv4 address with octets \<open>a\<close>, \<open>b\<close>, \<open>c\<close>, \<open>d\<close>.\<close>

definition dotted :: "nat \<Rightarrow> nat \<Rightarrow> nat \<Rightarrow> nat \<Rightarrow> string" where
  "dotted a b c d = str_nat a @ ''.'' @ str_nat b @ ''.'' @ str_nat c @ ''.'' @ str_nat d"

text \<open>\<open>c.join(ps)\<close>, the inverse of \<open>split\<close>.\<close>

fun join :: "char \<Rightarrow> string list \<Rightarrow> string" where
  "join c [] = []"
| "join c [p] = p"
| "join c (p # q # ps) = p @ c # join c (q # ps)"

section \<open>The switch: command API socket and prefix-lists\<close>

definition prefix_list_name :: string where
  "prefix_list_name = ''SCRIPTED_ROUTE_FILTER''"

text \<open>An element of \<open>ipPrefixEntries\<close> in the reply to \<open>show ip prefix-list\<close>.\<close>

record entry =
  prefix :: string
  seqno :: int

text \<open>The dictionary \<open>ipPrefixLists\<close>: prefix-list name to its entries.\<close>

type_synonym prefix_lists = "string \<rightharpoonup> entry list"

text \<open>The commands the script sends through \<open>runCmds\<close>, and their text.\<close>

datatype cmd =
    Enable
  | Configure
  | End
  | ShowIpPrefixList string
  | IpPrefixListPermit string string
  | NoIpPrefixListSeq string int

fun cmd_text :: "cmd \<Rightarrow> string" where
  "cmd_text Enable = ''enable''"
| "cmd_text Configure = ''configure''"
| "cmd_text End = ''end''"
| "cmd_text (ShowIpPrefixList name) = ''show ip prefix-list '' @ name"
| "cmd_text (IpPrefixListPermit name net31) = ''ip prefix-list '' @ name @ '' permit '' @ net31"
| "cmd_text (NoIpPrefixListSeq name n) = ''no ip prefix-list '' @ name @ '' seq '' @ python_str n"

text \<open>What the process does to its surroundings: a syslog notice or one \<open>runCmds\<close> call.\<close>

datatype effect = Syslog string | RunCmds "cmd list"

text \<open>
  Modelled from the spec: the switch that executes the commands is the external rule
  store and is not part of the repository. \<open>insertEntry\<close> appends a permit entry for the
  prefix (with the next free sequence number, in steps of 10), \<open>removeEntry\<close> removes by
  sequence number, and listing a prefix-list that does not exist replies with an
  \<open>ipPrefixLists\<close> dictionary without that name.
\<close>

definition next_seqno :: "entry list \<Rightarrow> int" where
  "next_seqno es = foldr (\<lambda>e m. max (seqno e) m) es 0 + 10"

fun exec_cmd :: "cmd \<Rightarrow> prefix_lists \<Rightarrow> prefix_lists" where
  "exec_cmd (IpPrefixListPermit name net31) pl =
     (let es = (case pl name of None \<Rightarrow> [] | Some es \<Rightarrow> es)
      in pl(name \<mapsto> es @ [\<lparr>prefix = net31, seqno = next_seqno es\<rparr>]))"
| "exec_cmd (NoIpPrefixListSeq name n) pl =
     (case pl name of None \<Rightarrow> pl | Some es \<Rightarrow> pl(name \<mapsto> filter (\<lambda>e. seqno e \<noteq> n) es))"
| "exec_cmd _ pl = pl"

definition runCmds :: "cmd list \<Rightarrow> prefix_lists \<Rightarrow> prefix_lists" where
  "runCmds cmds pl = fold exec_cmd cmds pl"

definition show_reply :: "prefix_lists \<Rightarrow> string \<Rightarrow> prefix_lists" where
  "show_reply pl name = (\<lambda>k. if k = name then pl k else None)"

text \<open>
  \<open>build_connection\<close>: the argument is the result of
  \<open>os.path.exists('/var/run/command-api.sock')\<close>.
\<close>

definition socket_message :: string where
  "socket_message = ''Socket API not available: enable it via...'' @ [CHR 0x0A]
     @ ''  management api http-commands'' @ [CHR 0x0A]
     @ ''    protocol unix-socket'' @ [CHR 0x0A]
     @ ''    no shutdown''"

definition build_connection :: "bool \<Rightarrow> error + unit" where
  "build_connection sock_exists =
     (if sock_exists then Inr () else Inl (SystemExit socket_message))"

text \<open>
  The \<open>while result: iterate = result.pop()\<close> loop of \<open>check_filter\<close> takes the entries
  from the end of the list; \<open>pop_entries\<close> runs on the reversed list.
\<close>

fun pop_entries :: "entry list \<Rightarrow> string \<Rightarrow> bool \<times> int" where
  "pop_entries [] net31 = (False, 0)"
| "pop_entries (iterate # result) net31 =
     (if prefix iterate = net31 then (True, seqno iterate) else pop_entries result net31)"

text \<open>
  The functions that talk to the switch take the socket's existence and the switch's
  prefix-lists, and return the effects they had together with an error or their result.
  \<open>result.has_key\<close> is the Python 2 dictionary method (the script runs on EOS's Python 2).
\<close>

definition check_filter ::
  "bool \<Rightarrow> prefix_lists \<Rightarrow> string \<Rightarrow> string \<Rightarrow> effect list \<times> (error + bool \<times> int)" where
  "check_filter sock_exists pl net31 name =
     (case build_connection sock_exists of
        Inl e \<Rightarrow> ([], Inl e)
      | Inr _ \<Rightarrow>
          ([RunCmds [ShowIpPrefixList name]],
           Inr (case show_reply pl name name of
                  Some result \<Rightarrow> pop_entries (rev result) net31
                | None \<Rightarrow> (False, 0))))"

definition add_filter ::
  "bool \<Rightarrow> prefix_lists \<Rightarrow> string \<Rightarrow> string \<Rightarrow> effect list \<times> (error + prefix_lists)" where
  "add_filter sock_exists pl net31 name =
     (case build_connection sock_exists of
        Inl e \<Rightarrow> ([], Inl e)
      | Inr _ \<Rightarrow>
          (let cmd = [Enable, Configure, IpPrefixListPermit name net31, End]
           in ([RunCmds cmd], Inr (runCmds cmd pl))))"

definition remove_filter ::
  "bool \<Rightarrow> prefix_lists \<Rightarrow> int \<Rightarrow> string \<Rightarrow> effect list \<times> (error + prefix_lists)" where
  "remove_filter sock_exists pl n name =
     (case build_connection sock_exists of
        Inl e \<Rightarrow> ([], Inl e)
      | Inr _ \<Rightarrow>
          (let cmd = [Enable, Configure, NoIpPrefixListSeq name n, End]
           in ([RunCmds cmd], Inr (runCmds cmd pl))))"

section \<open>\<open>main\<close>: start-up and the polling loop\<close>

text \<open>The parsed arguments \<open>main\<close> uses: \<open>args.host[0]\<close> and \<open>args.dampening\<close>.\<close>

record args =
  host :: string
  dampening :: int

text \<open>The local variables of \<open>main\<close> that survive an iteration.\<close>

record counters =
  dampeningDead :: int
  dampeningAlive :: int
  wasAlive :: bool

text \<open>
  What one iteration reads from outside: the result of \<open>check.isAlive()\<close> (the latency
  is only logged) and whether the API socket exists during the iteration.
\<close>

record tick =
  alive :: bool
  sock :: bool

definition msg_available :: "string \<Rightarrow> string" where
  "msg_available h = ''Target '' @ h @ '' is available''"

definition msg_removed :: "string \<Rightarrow> string" where
  "msg_removed h = ''Target '' @ h @ '' removed from '' @ prefix_list_name @ '' prefix-list''"

definition msg_dead :: "string \<Rightarrow> string" where
  "msg_dead h = ''Target '' @ h @ '' is dead - added to '' @ prefix_list_name @ '' prefix-list''"

text \<open>
  One pass through the body of \<open>while True\<close> (mode \<open>icmp\<close>). The \<open>logging\<close> calls are
  left out; the syslog notices and the \<open>runCmds\<close> calls are the effects. An error leaves
  the body at the call that raised it, with the effects up to there.
\<close>

definition iteration ::
  "args \<Rightarrow> string \<Rightarrow> tick \<Rightarrow> counters \<times> prefix_lists
     \<Rightarrow> effect list \<times> (error + counters \<times> prefix_lists)" where
  "iteration a net31 t = (\<lambda>(s, pl).
     if alive t then
       let s1 = s\<lparr>dampeningDead := 0\<rparr> in
       if \<not> wasAlive s1 then
         if dampeningAlive s1 < dampening a then
           ([], Inr (s1\<lparr>dampeningAlive := dampeningAlive s1 + 1\<rparr>, pl))
         else if dampeningAlive s1 = dampening a then
           let s2 = s1\<lparr>wasAlive := True, dampeningAlive := 0\<rparr>;
               note = Syslog (msg_available (host a))
           in (case check_filter (sock t) pl net31 prefix_list_name of
                 (fx, Inl e) \<Rightarrow> (note # fx, Inl e)
               | (fx, Inr (filtered, n)) \<Rightarrow>
                   if filtered then
                     (case remove_filter (sock t) pl n prefix_list_name of
                        (fx', Inl e) \<Rightarrow> (note # fx @ fx', Inl e)
                      | (fx', Inr pl') \<Rightarrow>
                          (note # fx @ fx' @ [Syslog (msg_removed (host a))], Inr (s2, pl')))
                   else (note # fx, Inr (s2, pl)))
         else ([], Inr (s1, pl))
       else ([], Inr (s1, pl))
     else
       let s1 = s\<lparr>dampeningDead := dampeningDead s + 1, dampeningAlive := 0\<rparr> in
       if wasAlive s1 \<and> dampeningDead s1 \<ge> dampening a then
         let note = Syslog (msg_dead (host a))
         in (case add_filter (sock t) pl net31 prefix_list_name of
               (fx, Inl e) \<Rightarrow> (note # fx, Inl e)
             | (fx, Inr pl') \<Rightarrow> (note # fx, Inr (s1\<lparr>wasAlive := False\<rparr>, pl')))
       else ([], Inr (s1, pl)))"

text \<open>
  The loop over the probe results that arrive before the keyboard interrupt. An error
  is not caught by \<open>except KeyboardInterrupt\<close> and ends the run.
\<close>

fun loop ::
  "args \<Rightarrow> string \<Rightarrow> tick list \<Rightarrow> counters \<times> prefix_lists
     \<Rightarrow> effect list \<times> (error + counters \<times> prefix_lists)" where
  "loop a net31 [] st = ([], Inr st)"
| "loop a net31 (t # ts) st =
     (case iteration a net31 t st of
        (fx, Inl e) \<Rightarrow> (fx, Inl e)
      | (fx, Inr st') \<Rightarrow> (case loop a net31 ts st' of (fx', r) \<Rightarrow> (fx @ fx', r)))"

text \<open>
  The part of \<open>main\<close> before the loop: the /31 of the host, the query of the prefix-list,
  and the initial values of the three variables.
\<close>

definition startup ::
  "args \<Rightarrow> bool \<Rightarrow> prefix_lists \<Rightarrow> effect list \<times> (error + string \<times> counters)" where
  "startup a sock_exists pl =
     (let s0 = \<lparr>dampeningDead = 0, dampeningAlive = 0, wasAlive = True\<rparr> in
      case network_s31 (host a) of
        Inl e \<Rightarrow> ([], Inl e)
      | Inr net31 \<Rightarrow>
          (case check_filter sock_exists pl net31 prefix_list_name of
             (fx, Inl e) \<Rightarrow> (fx, Inl e)
           | (fx, Inr (filtered, n)) \<Rightarrow>
               (fx, Inr (net31, if filtered then (if wasAlive s0 then s0\<lparr>wasAlive := False\<rparr> else s0)
                                else s0))))"

definition main ::
  "args \<Rightarrow> bool \<Rightarrow> prefix_lists \<Rightarrow> tick list
     \<Rightarrow> effect list \<times> (error + counters \<times> prefix_lists)" where
  "main a sock_exists pl ts =
     (case startup a sock_exists pl of
        (fx, Inl e) \<Rightarrow> (fx, Inl e)
      | (fx, Inr (net31, s0)) \<Rightarrow>
          (case loop a net31 ts (s0, pl) of (fx', r) \<Rightarrow> (fx @ fx', r)))"

text \<open>The length of the run of unreachable results that ends the history \<open>ts\<close>.\<close>

definition consecutive_unreachable :: "tick list \<Rightarrow> nat" where
  "consecutive_unreachable ts = length (takeWhile (\<lambda>t. \<not> alive t) (rev ts))"

abbreviation Reachable :: tick where
  "Reachable \<equiv> \<lparr>alive = True, sock = True\<rparr>"

abbreviation Unreachable :: tick where
  "Unreachable \<equiv> \<lparr>alive = False, sock = True\<rparr>"

text \<open>The entries of a prefix-list, none when the list does not exist.\<close>

definition entries_of :: "prefix_lists \<Rightarrow> string \<Rightarrow> entry list" where
  "entries_of pl name = (case pl name of None \<Rightarrow> [] | Some es \<Rightarrow> es)"

text \<open>The notices of the two transitions among the effects of a run.\<close>

definition transitions :: "args \<Rightarrow> effect list \<Rightarrow> effect list" where
  "transitions a fx =
     filter (\<lambda>e. e = Syslog (msg_dead (host a)) \<or> e = Syslog (msg_available (host a))) fx"

section \<open>Decimal text and dotted quads\<close>

lemma of_char_digit_char: "n < 10 \<Longrightarrow> (of_char (digit_char n) :: nat) = 48 + n"
  by (simp add: digit_char_def)

lemma is_digit_digit_char: "n < 10 \<Longrightarrow> is_digit (digit_char n)"
  by (simp add: is_digit_def of_char_digit_char)

lemma digit_val_digit_char: "n < 10 \<Longrightarrow> digit_val (digit_char n) = n"
  by (simp add: digit_val_def of_char_digit_char)

lemma digit_char_digit_val: "is_digit c \<Longrightarrow> digit_char (digit_val c) = c"
  by (simp add: digit_char_def digit_val_def is_digit_def)

lemma digit_val_less: "is_digit c \<Longrightarrow> digit_val c < 10"
  by (auto simp add: digit_val_def is_digit_def)

lemma digit_char_zero: "digit_char 0 = CHR ''0''"
  by code_simp

lemma digit_char_eq_zero: "n < 10 \<Longrightarrow> digit_char n = CHR ''0'' \<Longrightarrow> n = 0"
  using digit_val_digit_char [of n] digit_val_digit_char [of 0] by (simp add: digit_char_zero)

lemma digit_val_zero: "is_digit c \<Longrightarrow> digit_val c = 0 \<Longrightarrow> c = CHR ''0''"
  using digit_char_digit_val [of c] by (simp add: digit_char_zero)

lemma is_digit_not_dot: "is_digit c \<Longrightarrow> c \<noteq> CHR ''.''"
  by (auto simp add: is_digit_def)

lemma digits_val_snoc: "digits_val (q @ [c]) = 10 * digits_val q + digit_val c"
  by (simp add: digits_val_def)

lemma str_nat_digits: "list_all is_digit (str_nat n)"
  by (induction n rule: str_nat.induct) (subst str_nat.simps, simp add: is_digit_digit_char)

lemma str_nat_nonempty: "str_nat n \<noteq> []"
  by (subst str_nat.simps) simp

lemma digits_val_str_nat: "digits_val (str_nat n) = n"
proof (induction n rule: str_nat.induct)
  case (1 n)
  show ?case
  proof (cases "n < 10")
    case True
    then show ?thesis
      by (subst str_nat.simps) (simp add: digits_val_def digit_val_digit_char)
  next
    case False
    with 1 show ?thesis
      by (subst str_nat.simps) (simp add: digits_val_snoc digit_val_digit_char)
  qed
qed

lemma str_nat_no_dot: "CHR ''.'' \<notin> set (str_nat n)"
  using str_nat_digits [of n] is_digit_not_dot by (auto simp add: list_all_iff)

lemma hd_str_nat: "0 < n \<Longrightarrow> hd (str_nat n) \<noteq> CHR ''0''"
proof (induction n rule: str_nat.induct)
  case (1 n)
  show ?case
  proof (cases "n < 10")
    case True
    with 1(2) show ?thesis
      using digit_char_eq_zero [of n] by (subst str_nat.simps) auto
  next
    case False
    then have "0 < n div 10" by simp
    with 1 False show ?thesis
      by (subst str_nat.simps) (simp add: str_nat_nonempty)
  qed
qed

lemma octet_ok_str_nat: "n < 256 \<Longrightarrow> octet_ok (str_nat n)"
proof (cases "n = 0")
  case True
  then show ?thesis
    by (simp add: octet_ok_def str_nat.simps is_digit_digit_char digits_val_def digit_val_digit_char)
next
  case False
  assume "n < 256"
  with False show ?thesis
    by (simp add: octet_ok_def str_nat_nonempty str_nat_digits digits_val_str_nat hd_str_nat)
qed

lemma python_int_str_nat: "python_int (str_nat n) = Some (int n)"
  by (simp add: python_int_def str_nat_nonempty str_nat_digits digits_val_str_nat)

lemma split_nonempty: "split c s \<noteq> []"
  by (induction s) (auto split: list.splits)

lemma split_no_sep: "c \<notin> set p \<Longrightarrow> split c p = [p]"
  by (induction p) (auto split: list.splits)

lemma split_append_sep: "c \<notin> set p \<Longrightarrow> split c (p @ c # rest) = p # split c rest"
  by (induction p) (auto split: list.splits simp add: split_nonempty)

lemma split_dotted: "split CHR ''.'' (dotted a b c d) = [str_nat a, str_nat b, str_nat c, str_nat d]"
  by (simp add: dotted_def split_append_sep split_no_sep str_nat_no_dot)

lemma colon_not_in_dotted: "CHR '':'' \<notin> set (dotted a b c d)"
proof -
  have "CHR '':'' \<notin> set (str_nat n)" for n
    using str_nat_digits [of n] by (auto simp add: list_all_iff is_digit_def)
  then show ?thesis by (simp add: dotted_def)
qed

lemma inet_pton_dotted: "a < 256 \<Longrightarrow> b < 256 \<Longrightarrow> c < 256 \<Longrightarrow> d < 256 \<Longrightarrow> inet_pton (dotted a b c d)"
  by (simp add: inet_pton_def split_dotted octet_ok_str_nat)

lemma network_s31_dotted:
  assumes "a < 256" "b < 256" "c < 256" "d < 256"
  shows "network_s31 (dotted a b c d) = Inr (dotted a b c (d - d mod 2) @ ''/31'')"
proof (cases "d mod 2 = 1")
  case True
  then have d: "int d mod 2 = 1" by presburger
  from True have "0 < d" by presburger
  then have "nat (int d - 1) = d - 1" by simp
  with True d assms \<open>0 < d\<close> show ?thesis
    by (simp add: network_s31_def is_valid_ipv4_address_def inet_pton_dotted colon_not_in_dotted
        split_dotted python_int_str_nat python_str_def Let_def) (simp add: dotted_def)
next
  case False
  then have d: "int d mod 2 \<noteq> 1" by presburger
  from False have "d mod 2 = 0" by presburger
  with d assms show ?thesis
    by (simp add: network_s31_def is_valid_ipv4_address_def inet_pton_dotted colon_not_in_dotted
        split_dotted python_int_str_nat Let_def)
qed

lemma join_split: "join c (split c s) = s"
proof (induction s)
  case Nil
  show ?case by simp
next
  case (Cons x xs)
  obtain p ps where sp: "split c xs = p # ps"
    using split_nonempty [of c xs] by (cases "split c xs") auto
  with Cons show ?case by (cases ps) auto
qed

lemma split_four: "split c s = [p0, p1, p2, p3] \<Longrightarrow> s = p0 @ c # p1 @ c # p2 @ c # p3"
  using join_split [of c s] by simp

lemma digits_val_zero_hd:
  "list_all is_digit q \<Longrightarrow> q \<noteq> [] \<Longrightarrow> digits_val q = 0 \<Longrightarrow> hd q = CHR ''0''"
proof (induction q rule: rev_induct)
  case Nil
  then show ?case by simp
next
  case (snoc c q)
  then show ?case
    by (cases "q = []") (auto simp add: digits_val_snoc digit_val_zero digits_val_def)
qed

lemma str_nat_digits_val:
  "q \<noteq> [] \<Longrightarrow> list_all is_digit q \<Longrightarrow> length q = 1 \<or> hd q \<noteq> CHR ''0'' \<Longrightarrow> str_nat (digits_val q) = q"
proof (induction q rule: rev_induct)
  case Nil
  then show ?case by simp
next
  case (snoc c q)
  from snoc.prems have c: "is_digit c" and q: "list_all is_digit q" by simp_all
  show ?case
  proof (cases "q = []")
    case True
    with c show ?thesis
      by (subst str_nat.simps) (simp add: digits_val_def digit_val_less digit_char_digit_val)
  next
    case False
    with snoc.prems have hd: "hd q \<noteq> CHR ''0''" by (cases q) auto
    with False q have pos: "0 < digits_val q" using digits_val_zero_hd [of q] by auto
    from False q hd snoc.IH have ih: "str_nat (digits_val q) = q" by simp
    from c have lt: "digit_val c < 10" by (rule digit_val_less)
    from pos lt have "\<not> 10 * digits_val q + digit_val c < 10" by simp
    moreover from lt have "(10 * digits_val q + digit_val c) div 10 = digits_val q" by simp
    moreover from lt have "(10 * digits_val q + digit_val c) mod 10 = digit_val c" by simp
    ultimately show ?thesis using ih c
      by (subst str_nat.simps) (simp add: digits_val_snoc digit_char_digit_val)
  qed
qed

lemma octet_ok_str_nat_iff: "octet_ok p \<longleftrightarrow> (\<exists>n<256. p = str_nat n)"
proof
  assume "octet_ok p"
  then have "str_nat (digits_val p) = p" "digits_val p < 256"
    by (simp_all add: octet_ok_def str_nat_digits_val)
  then show "\<exists>n<256. p = str_nat n" by metis
next
  assume "\<exists>n<256. p = str_nat n"
  then show "octet_ok p" by (auto simp add: octet_ok_str_nat)
qed

lemma inet_pton_iff_dotted:
  "inet_pton s \<longleftrightarrow> (\<exists>a b c d. a < 256 \<and> b < 256 \<and> c < 256 \<and> d < 256 \<and> s = dotted a b c d)"
proof
  assume v: "inet_pton s"
  then obtain p0 p1 p2 p3 where sp: "split CHR ''.'' s = [p0, p1, p2, p3]"
    by (auto simp add: inet_pton_def Let_def length_Suc_conv numeral_eq_Suc)
  with v have "octet_ok p0" "octet_ok p1" "octet_ok p2" "octet_ok p3"
    by (simp_all add: inet_pton_def)
  then obtain a b c d where "a < 256" "p0 = str_nat a" "b < 256" "p1 = str_nat b"
      "c < 256" "p2 = str_nat c" "d < 256" "p3 = str_nat d"
    unfolding octet_ok_str_nat_iff by blast
  with split_four [OF sp] show "\<exists>a b c d. a < 256 \<and> b < 256 \<and> c < 256 \<and> d < 256 \<and> s = dotted a b c d"
    unfolding dotted_def by auto
next
  assume "\<exists>a b c d. a < 256 \<and> b < 256 \<and> c < 256 \<and> d < 256 \<and> s = dotted a b c d"
  then show "inet_pton s" by (auto simp add: inet_pton_dotted)
qed

section \<open>The counters along a run\<close>

lemmas store_defs = check_filter_def add_filter_def remove_filter_def build_connection_def

lemma msg_distinct:
  "msg_dead h \<noteq> msg_available h" "msg_removed h \<noteq> msg_dead h" "msg_removed h \<noteq> msg_available h"
  by (simp_all add: msg_dead_def msg_available_def msg_removed_def)

lemma iteration_dead_silent:
  "\<not> wasAlive s \<Longrightarrow> \<not> alive t \<Longrightarrow>
   iteration a n t (s, pl) = ([], Inr (s\<lparr>dampeningDead := dampeningDead s + 1, dampeningAlive := 0\<rparr>, pl))"
  by (simp add: iteration_def)

lemma iteration_dampeningDead:
  "iteration a n t (s, pl) = (fx, Inr (s', pl')) \<Longrightarrow>
   dampeningDead s' = (if alive t then 0 else dampeningDead s + 1)"
  by (auto simp add: iteration_def Let_def store_defs runCmds_def split: if_splits prod.splits option.splits)

lemma iteration_wasAlive_bound:
  "1 \<le> dampening a \<Longrightarrow> wasAlive s \<longrightarrow> dampeningDead s < dampening a \<Longrightarrow>
   iteration a n t (s, pl) = (fx, Inr (s', pl')) \<Longrightarrow>
   wasAlive s' \<longrightarrow> dampeningDead s' < dampening a"
  by (auto simp add: iteration_def Let_def store_defs split: if_splits prod.splits option.splits)

lemma loop_snoc:
  "loop a n (ts @ [t]) st =
     (case loop a n ts st of
        (fx, Inl e) \<Rightarrow> (fx, Inl e)
      | (fx, Inr st') \<Rightarrow> (case iteration a n t st' of (fx', r) \<Rightarrow> (fx @ fx', r)))"
  by (induction ts arbitrary: st) (auto split: prod.splits sum.splits)

lemma consecutive_unreachable_snoc:
  "consecutive_unreachable (ts @ [t]) = (if alive t then 0 else consecutive_unreachable ts + 1)"
  by (simp add: consecutive_unreachable_def)

lemma loop_invariant:
  assumes "1 \<le> dampening a" "dampeningDead s0 = 0"
  shows "loop a n ts (s0, pl0) = (fx, Inr (s, pl)) \<Longrightarrow>
         dampeningDead s = int (consecutive_unreachable ts)
         \<and> (wasAlive s \<longrightarrow> dampeningDead s < dampening a)"
proof (induction ts arbitrary: fx s pl rule: rev_induct)
  case Nil
  with assms show ?case by (simp add: consecutive_unreachable_def)
next
  case (snoc t ts)
  from snoc.prems obtain fx1 s1 pl1 fx2 where
    l: "loop a n ts (s0, pl0) = (fx1, Inr (s1, pl1))" and
    i: "iteration a n t (s1, pl1) = (fx2, Inr (s, pl))"
    by (auto simp add: loop_snoc split: prod.splits sum.splits)
  from snoc.IH [OF l] have ih: "dampeningDead s1 = int (consecutive_unreachable ts)"
    "wasAlive s1 \<longrightarrow> dampeningDead s1 < dampening a" by blast+
  from iteration_dampeningDead [OF i] ih(1)
  have "dampeningDead s = int (consecutive_unreachable (ts @ [t]))"
    by (simp add: consecutive_unreachable_snoc)
  moreover from iteration_wasAlive_bound [OF assms(1) ih(2) i]
  have "wasAlive s \<longrightarrow> dampeningDead s < dampening a" .
  ultimately show ?case by simp
qed

lemma startup_counters:
  "startup a sk pl = (fx, Inr (n, s0)) \<Longrightarrow> dampeningDead s0 = 0 \<and> dampeningAlive s0 = 0"
  by (auto simp add: startup_def Let_def split: sum.splits prod.splits if_splits)

lemma iteration_emits_dead_iff:
  "Syslog (msg_dead (host a)) \<in> set (fst (iteration a n t (s, pl)))
   \<longleftrightarrow> wasAlive s \<and> \<not> alive t \<and> dampening a \<le> dampeningDead s + 1"
  using msg_distinct [of "host a"]
  by (auto simp add: iteration_def Let_def store_defs split: if_splits prod.splits option.splits)

lemma iteration_becomes_dead:
  "wasAlive s \<Longrightarrow> \<not> alive t \<Longrightarrow> dampening a \<le> dampeningDead s + 1 \<Longrightarrow> sock t \<Longrightarrow>
   iteration a n t (s, pl) =
     ([Syslog (msg_dead (host a)),
       RunCmds [Enable, Configure, IpPrefixListPermit prefix_list_name n, End]],
      Inr (s\<lparr>dampeningDead := dampeningDead s + 1, dampeningAlive := 0, wasAlive := False\<rparr>,
           runCmds [Enable, Configure, IpPrefixListPermit prefix_list_name n, End] pl))"
  by (simp add: iteration_def Let_def store_defs)

lemma iteration_transitions:
  "(transitions a (fst (iteration a n t (s, pl))) = []
      \<and> (\<forall>s' pl'. snd (iteration a n t (s, pl)) = Inr (s', pl') \<longrightarrow> wasAlive s' = wasAlive s))
   \<or> (transitions a (fst (iteration a n t (s, pl))) = [Syslog (msg_dead (host a))] \<and> wasAlive s
      \<and> (\<forall>s' pl'. snd (iteration a n t (s, pl)) = Inr (s', pl') \<longrightarrow> \<not> wasAlive s'))
   \<or> (transitions a (fst (iteration a n t (s, pl))) = [Syslog (msg_available (host a))] \<and> \<not> wasAlive s
      \<and> (\<forall>s' pl'. snd (iteration a n t (s, pl)) = Inr (s', pl') \<longrightarrow> wasAlive s'))"
  using msg_distinct [of "host a"]
  by (auto simp add: iteration_def Let_def store_defs transitions_def split: if_splits prod.splits option.splits)

lemma transitions_append: "transitions a (fx @ fx') = transitions a fx @ transitions a fx'"
  by (simp add: transitions_def)

lemma loop_transitions:
  "distinct_adj (transitions a (fst (loop a n ts (s, pl))))
   \<and> (transitions a (fst (loop a n ts (s, pl))) \<noteq> [] \<longrightarrow>
        hd (transitions a (fst (loop a n ts (s, pl))))
          = (if wasAlive s then Syslog (msg_dead (host a)) else Syslog (msg_available (host a))))"
proof (induction ts arbitrary: s pl)
  case Nil
  show ?case by (simp add: transitions_def)
next
  case (Cons t ts)
  obtain fx1 r1 where i: "iteration a n t (s, pl) = (fx1, r1)" by (cases "iteration a n t (s, pl)")
  show ?case
  proof (cases r1)
    case (Inl e)
    with i iteration_transitions [of a n t s pl] show ?thesis by auto
  next
    case (Inr st')
    obtain s' pl' where st': "st' = (s', pl')" by (cases st')
    obtain fx2 r2 where l: "loop a n ts (s', pl') = (fx2, r2)" by (cases "loop a n ts (s', pl')")
    from Cons.IH [of s' pl'] l have ih: "distinct_adj (transitions a fx2)"
      "transitions a fx2 \<noteq> [] \<longrightarrow> hd (transitions a fx2)
          = (if wasAlive s' then Syslog (msg_dead (host a)) else Syslog (msg_available (host a)))"
      by simp_all
    from i Inr st' l have eq: "fst (loop a n (t # ts) (s, pl)) = fx1 @ fx2" by simp
    from iteration_transitions [of a n t s pl] i Inr st' ih msg_distinct(1) [of "host a"]
    show ?thesis unfolding eq transitions_append
      by (cases "transitions a fx2") (auto simp add: distinct_adj_Cons)
  qed
qed

lemma pop_entries_filter:
  "pop_entries es n = (case filter (\<lambda>e. prefix e = n) es of [] \<Rightarrow> (False, 0) | e # _ \<Rightarrow> (True, seqno e))"
  by (induction es) auto

lemma pop_entries_found: "fst (pop_entries es n) \<longleftrightarrow> (\<exists>e\<in>set es. prefix e = n)"
  by (induction es) auto

lemma loop_unreachable:
  "\<not> wasAlive s \<Longrightarrow> ts \<noteq> [] \<Longrightarrow> \<forall>t\<in>set ts. \<not> alive t \<Longrightarrow>
   loop a n ts (s, pl)
     = ([], Inr (s\<lparr>dampeningDead := dampeningDead s + int (length ts), dampeningAlive := 0\<rparr>, pl))"
proof (induction ts arbitrary: s)
  case Nil
  then show ?case by simp
next
  case (Cons t ts)
  show ?case
  proof (cases "ts = []")
    case True
    with Cons.prems show ?thesis by (simp add: iteration_dead_silent)
  next
    case False
    let ?s = "s\<lparr>dampeningDead := dampeningDead s + 1, dampeningAlive := 0\<rparr>"
    from Cons.prems have "\<not> wasAlive ?s" "\<forall>t\<in>set ts. \<not> alive t" by simp_all
    from Cons.IH [OF this(1) False this(2)] Cons.prems show ?thesis
      by (simp add: iteration_dead_silent add.assoc)
  qed
qed

lemma startup_filtered:
  "startup a sk pl = (fx0, Inr (n, s0)) \<Longrightarrow> \<exists>e\<in>set (entries_of pl prefix_list_name). prefix e = n \<Longrightarrow>
   \<not> wasAlive s0"
  using pop_entries_found [of "rev (entries_of pl prefix_list_name)" n]
  by (auto simp add: startup_def Let_def store_defs show_reply_def entries_of_def
      split: sum.splits if_splits option.splits prod.splits)

lemma net31_example: "network_s31 ''10.0.0.5'' = Inr ''10.0.0.4/31''"
  by code_simp

lemma iteration_dead_no_insert:
  "\<not> wasAlive s \<Longrightarrow>
   RunCmds [Enable, Configure, IpPrefixListPermit prefix_list_name n, End]
     \<notin> set (fst (iteration a n u (s, pl)))
   \<and> Syslog (msg_dead (host a)) \<notin> set (fst (iteration a n u (s, pl)))"
  using msg_distinct [of "host a"]
  by (auto simp add: iteration_def Let_def store_defs split: if_splits prod.splits option.splits)

lemma pop_entries_rev:
  "pop_entries (rev es) n =
     (if \<exists>e\<in>set es. prefix e = n then (True, seqno (last (filter (\<lambda>e. prefix e = n) es)))
      else (False, 0))"
proof (induction es rule: rev_induct)
  case Nil
  show ?case by simp
next
  case (snoc e es)
  then show ?case by auto
qed

lemma check_filter_entries:
  "check_filter True pl n name =
     ([RunCmds [ShowIpPrefixList name]],
      Inr (if \<exists>e\<in>set (entries_of pl name). prefix e = n
           then (True, seqno (last (filter (\<lambda>e. prefix e = n) (entries_of pl name))))
           else (False, 0)))"
  by (simp add: check_filter_def build_connection_def show_reply_def entries_of_def pop_entries_rev
      split: option.splits)

lemma runCmds_permit:
  "runCmds [Enable, Configure, IpPrefixListPermit name n, End] pl
     = pl(name \<mapsto> entries_of pl name @ [\<lparr>prefix = n, seqno = next_seqno (entries_of pl name)\<rparr>])"
  by (simp add: runCmds_def entries_of_def Let_def)

lemma runCmds_no_seq:
  "runCmds [Enable, Configure, NoIpPrefixListSeq name k, End] pl
     = (case pl name of None \<Rightarrow> pl | Some es \<Rightarrow> pl(name \<mapsto> filter (\<lambda>e. seqno e \<noteq> k) es))"
  by (simp add: runCmds_def)

lemma iteration_error_iff:
  "(\<exists>e. snd (iteration a n t (s, pl)) = Inl e)
   \<longleftrightarrow> \<not> sock t \<and> ((alive t \<and> \<not> wasAlive s \<and> dampeningAlive s = dampening a)
                    \<or> (\<not> alive t \<and> wasAlive s \<and> dampening a \<le> dampeningDead s + 1))"
  by (auto simp add: iteration_def Let_def store_defs split: if_splits prod.splits option.splits)

lemma iteration_error_exit:
  "snd (iteration a n t (s, pl)) = Inl e \<Longrightarrow> e = SystemExit socket_message"
  by (auto simp add: iteration_def Let_def store_defs split: if_splits prod.splits option.splits)

lemma loop_error_stops:
  "snd (iteration a n t st) = Inl e \<Longrightarrow> loop a n (t # ts) st = (fst (iteration a n t st), Inl e)"
  by (cases "iteration a n t st") auto

section \<open>The /31 of the target\<close>

text \<open>
  Claim C7. For every IPv4 address \<open>a.b.c.d\<close> (octets below 256, written in decimal),
  \<open>network_s31\<close> returns \<open>a.b.c.(d-1)/31\<close> when \<open>d\<close> is odd and \<open>a.b.c.d/31\<close> when \<open>d\<close>
  is even: the first three octets are unchanged, the fourth is even and the prefix
  length is 31.
\<close>

theorem network_s31_pair:
  assumes "a < 256" "b < 256" "c < 256" "d < 256"
  shows "network_s31 (dotted a b c d)
           = Inr (dotted a b c (if odd d then d - 1 else d) @ ''/31'')"
proof -
  have "d - d mod 2 = (if odd d then d - 1 else d)"
    by (auto simp add: odd_iff_mod_2_eq_one)
  with network_s31_dotted [OF assms] show ?thesis by simp
qed

text \<open>The addresses \<open>10.0.0.5\<close> and \<open>10.0.0.4\<close> both map to \<open>10.0.0.4/31\<close>.\<close>

theorem network_s31_pair_witness:
  "network_s31 ''10.0.0.5'' = Inr ''10.0.0.4/31'' \<and> network_s31 ''10.0.0.4'' = Inr ''10.0.0.4/31''"
proof -
  have d5: "dotted 10 0 0 5 = ''10.0.0.5''" by code_simp
  have d4: "dotted 10 0 0 4 = ''10.0.0.4''" by code_simp
  have lt: "(10::nat) < 256" "(0::nat) < 256" "(5::nat) < 256" "(4::nat) < 256" by simp_all
  from network_s31_pair [OF lt(1) lt(2) lt(2) lt(3)] network_s31_pair [OF lt(1) lt(2) lt(2) lt(4)]
  show ?thesis by (simp add: d5 d4)
qed

text \<open>
  Claim C8. \<open>network_s31\<close> exits with the IPv6 message on every string that contains a
  colon, exits with the invalid-address message on every other string that is not four
  dot-separated octets in range 0-255, and returns a subnet exactly on the strings that
  are; an exit of \<open>network_s31\<close> ends \<open>main\<close> before anything else is done.
\<close>

theorem network_s31_errors:
  "(CHR '':'' \<in> set address \<longrightarrow>
      network_s31 address = Inl (SystemExit ''IPv6 not currently supported''))
   \<and> (CHR '':'' \<notin> set address
        \<and> \<not> (\<exists>a b c d. a < 256 \<and> b < 256 \<and> c < 256 \<and> d < 256 \<and> address = dotted a b c d) \<longrightarrow>
      network_s31 address
        = Inl (SystemExit (''address '' @ address @ '' does not appear to be valid'')))
   \<and> ((\<exists>net31. network_s31 address = Inr net31)
        \<longleftrightarrow> (\<exists>a b c d. a < 256 \<and> b < 256 \<and> c < 256 \<and> d < 256 \<and> address = dotted a b c d))
   \<and> (\<forall>e. network_s31 (host args) = Inl e \<longrightarrow> main args sock_exists pl ts = ([], Inl e))"
proof (intro conjI)
  show "CHR '':'' \<in> set address \<longrightarrow>
      network_s31 address = Inl (SystemExit ''IPv6 not currently supported'')"
    by (simp add: network_s31_def)
  show "CHR '':'' \<notin> set address
        \<and> \<not> (\<exists>a b c d. a < 256 \<and> b < 256 \<and> c < 256 \<and> d < 256 \<and> address = dotted a b c d) \<longrightarrow>
      network_s31 address
        = Inl (SystemExit (''address '' @ address @ '' does not appear to be valid''))"
    unfolding inet_pton_iff_dotted [symmetric]
    by (simp add: network_s31_def is_valid_ipv4_address_def)
  show "(\<exists>net31. network_s31 address = Inr net31)
        \<longleftrightarrow> (\<exists>a b c d. a < 256 \<and> b < 256 \<and> c < 256 \<and> d < 256 \<and> address = dotted a b c d)"
  proof
    assume "\<exists>net31. network_s31 address = Inr net31"
    then have "inet_pton address"
      by (auto simp add: network_s31_def is_valid_ipv4_address_def split: if_splits)
    then show "\<exists>a b c d. a < 256 \<and> b < 256 \<and> c < 256 \<and> d < 256 \<and> address = dotted a b c d"
      by (simp add: inet_pton_iff_dotted)
  next
    assume "\<exists>a b c d. a < 256 \<and> b < 256 \<and> c < 256 \<and> d < 256 \<and> address = dotted a b c d"
    then show "\<exists>net31. network_s31 address = Inr net31"
      using network_s31_dotted by blast
  qed
  show "\<forall>e. network_s31 (host args) = Inl e \<longrightarrow> main args sock_exists pl ts = ([], Inl e)"
    by (simp add: main_def startup_def)
qed

text \<open>An IPv6 address and an octet out of range.\<close>

theorem network_s31_errors_witness:
  "CHR '':'' \<in> set ''fe80::1''
   \<and> network_s31 ''fe80::1'' = Inl (SystemExit ''IPv6 not currently supported'')
   \<and> CHR '':'' \<notin> set ''10.0.0.256''
   \<and> \<not> (\<exists>a b c d. a < 256 \<and> b < 256 \<and> c < 256 \<and> d < 256 \<and> ''10.0.0.256'' = dotted a b c d)
   \<and> network_s31 ''10.0.0.256'' = Inl (SystemExit ''address 10.0.0.256 does not appear to be valid'')
   \<and> main \<lparr>host = ''10.0.0.256'', dampening = 3\<rparr> True Map.empty [Reachable]
       = ([], Inl (SystemExit ''address 10.0.0.256 does not appear to be valid''))"
proof -
  have c: "CHR '':'' \<in> set ''fe80::1''" "CHR '':'' \<notin> set ''10.0.0.256''" by simp_all
  have "\<not> inet_pton ''10.0.0.256''" by code_simp
  then have n: "\<not> (\<exists>a b c d. a < 256 \<and> b < 256 \<and> c < 256 \<and> d < 256 \<and> ''10.0.0.256'' = dotted a b c d)"
    by (simp only: inet_pton_iff_dotted not_False_eq_True)
  from network_s31_errors [of "''fe80::1''" "\<lparr>host = ''10.0.0.256'', dampening = 3\<rparr>" True Map.empty "[Reachable]"] c(1)
  have 1: "network_s31 ''fe80::1'' = Inl (SystemExit ''IPv6 not currently supported'')" by blast
  from network_s31_errors [of "''10.0.0.256''" "\<lparr>host = ''10.0.0.256'', dampening = 3\<rparr>" True Map.empty "[Reachable]"] c(2) n
  have 2: "network_s31 ''10.0.0.256'' = Inl (SystemExit ''address 10.0.0.256 does not appear to be valid'')"
    and 3: "\<forall>e. network_s31 ''10.0.0.256'' = Inl e \<longrightarrow> main \<lparr>host = ''10.0.0.256'', dampening = 3\<rparr> True Map.empty [Reachable] = ([], Inl e)"
    by simp_all
  from 3 2 have 4: "main \<lparr>host = ''10.0.0.256'', dampening = 3\<rparr> True Map.empty [Reachable]
       = ([], Inl (SystemExit ''address 10.0.0.256 does not appear to be valid''))" by blast
  from c n 1 2 4 show ?thesis by blast
qed

section \<open>Dampening\<close>

text \<open>
  Claim C2. With a dampening of at least 1, after any history of probe results that the
  loop has processed since start-up, the consecutive-failure counter is the number of
  unreachable results since the last reachable one, and the next iteration sends the
  target-is-dead notice if and only if \<open>wasAlive\<close> holds, the result is unreachable and
  it is the \<open>dampening\<close>-th consecutive unreachable one; the iteration then sends the
  permit command and sets \<open>wasAlive\<close> to false.
\<close>

theorem became_dead_iff:
  assumes "1 \<le> dampening a"
    and "startup a sk pl0 = (fx0, Inr (net31, s0))"
    and "loop a net31 ts (s0, pl0) = (fx, Inr (s, pl))"
  shows "dampeningDead s = int (consecutive_unreachable ts)
     \<and> (Syslog (msg_dead (host a)) \<in> set (fst (iteration a net31 t (s, pl)))
          \<longleftrightarrow> wasAlive s \<and> \<not> alive t \<and> int (consecutive_unreachable ts) + 1 = dampening a)
     \<and> (wasAlive s \<and> \<not> alive t \<and> int (consecutive_unreachable ts) + 1 = dampening a \<and> sock t \<longrightarrow>
          iteration a net31 t (s, pl) =
            ([Syslog (msg_dead (host a)),
              RunCmds [Enable, Configure, IpPrefixListPermit prefix_list_name net31, End]],
             Inr (s\<lparr>dampeningDead := dampening a, dampeningAlive := 0, wasAlive := False\<rparr>,
                  runCmds [Enable, Configure, IpPrefixListPermit prefix_list_name net31, End] pl)))"
proof -
  from startup_counters [OF assms(2)] have "dampeningDead s0 = 0" by simp
  from loop_invariant [OF assms(1) this assms(3)]
  have inv: "dampeningDead s = int (consecutive_unreachable ts)"
    "wasAlive s \<longrightarrow> dampeningDead s < dampening a" by blast+
  have "Syslog (msg_dead (host a)) \<in> set (fst (iteration a net31 t (s, pl)))
          \<longleftrightarrow> wasAlive s \<and> \<not> alive t \<and> int (consecutive_unreachable ts) + 1 = dampening a"
    unfolding iteration_emits_dead_iff using inv by auto
  moreover have "wasAlive s \<and> \<not> alive t \<and> int (consecutive_unreachable ts) + 1 = dampening a \<and> sock t \<longrightarrow>
          iteration a net31 t (s, pl) =
            ([Syslog (msg_dead (host a)),
              RunCmds [Enable, Configure, IpPrefixListPermit prefix_list_name net31, End]],
             Inr (s\<lparr>dampeningDead := dampening a, dampeningAlive := 0, wasAlive := False\<rparr>,
                  runCmds [Enable, Configure, IpPrefixListPermit prefix_list_name net31, End] pl))"
    using inv(1) iteration_becomes_dead [of s t a net31 pl] by auto
  ultimately show ?thesis using inv(1) by blast
qed

text \<open>
  Dampening 3, alive at start-up: after unreachable, unreachable, reachable, unreachable,
  unreachable nothing but the start-up query has happened, and the sixth result, again
  unreachable, sends the notice and the permit command, once.
\<close>

theorem became_dead_iff_witness:
  "fst (main \<lparr>host = ''10.0.0.5'', dampening = 3\<rparr> True Map.empty
          [Unreachable, Unreachable, Reachable, Unreachable, Unreachable])
     = [RunCmds [ShowIpPrefixList prefix_list_name]]
   \<and> Syslog (msg_dead ''10.0.0.5'')
       \<in> set (fst (iteration \<lparr>host = ''10.0.0.5'', dampening = 3\<rparr> ''10.0.0.4/31'' Unreachable
            (\<lparr>dampeningDead = 2, dampeningAlive = 0, wasAlive = True\<rparr>, Map.empty)))
   \<and> fst (main \<lparr>host = ''10.0.0.5'', dampening = 3\<rparr> True Map.empty
          [Unreachable, Unreachable, Reachable, Unreachable, Unreachable, Unreachable])
     = [RunCmds [ShowIpPrefixList prefix_list_name], Syslog (msg_dead ''10.0.0.5''),
        RunCmds [Enable, Configure, IpPrefixListPermit prefix_list_name ''10.0.0.4/31'', End]]"
proof -
  let ?a = "\<lparr>host = ''10.0.0.5'', dampening = 3\<rparr>"
  let ?ts = "[Unreachable, Unreachable, Reachable, Unreachable, Unreachable]"
  let ?s = "\<lparr>dampeningDead = 2, dampeningAlive = 0, wasAlive = True\<rparr>"
  have d: "1 \<le> dampening ?a" by simp
  have st: "startup ?a True Map.empty
      = ([RunCmds [ShowIpPrefixList prefix_list_name]],
         Inr (''10.0.0.4/31'', \<lparr>dampeningDead = 0, dampeningAlive = 0, wasAlive = True\<rparr>))"
    by (simp add: startup_def net31_example store_defs show_reply_def)
  have lp: "loop ?a ''10.0.0.4/31'' ?ts
      (\<lparr>dampeningDead = 0, dampeningAlive = 0, wasAlive = True\<rparr>, Map.empty) = ([], Inr (?s, Map.empty))"
    by (simp add: iteration_def)
  have cu: "int (consecutive_unreachable ?ts) + 1 = dampening ?a"
    by (simp add: consecutive_unreachable_def)
  from became_dead_iff [OF d st lp, of Unreachable] cu
  have 2: "Syslog (msg_dead ''10.0.0.5'') \<in> set (fst (iteration ?a ''10.0.0.4/31'' Unreachable (?s, Map.empty)))"
    by simp
  have 1: "fst (main ?a True Map.empty ?ts) = [RunCmds [ShowIpPrefixList prefix_list_name]]"
    by (simp add: main_def st lp del: loop.simps)
  have 3: "fst (main ?a True Map.empty
          [Unreachable, Unreachable, Reachable, Unreachable, Unreachable, Unreachable])
     = [RunCmds [ShowIpPrefixList prefix_list_name], Syslog (msg_dead ''10.0.0.5''),
        RunCmds [Enable, Configure, IpPrefixListPermit prefix_list_name ''10.0.0.4/31'', End]]"
    by (simp add: main_def st iteration_def store_defs Let_def)
  from 1 2 3 show ?thesis by simp
qed

text \<open>
  Claim C10. While \<open>wasAlive\<close> is false no iteration sends the permit command or the
  target-is-dead notice; an unreachable result only increments the failure counter, which
  so grows past the dampening over a run of unreachable results. In every run the
  notices of the two transitions alternate, so the dead transition fires at most once
  between two resurrections, and a run that starts dead begins with a resurrection.
  Start-up sets \<open>wasAlive\<close> to false when it finds an entry for the /31.
\<close>

theorem dead_stays_silent:
  "(\<not> wasAlive s \<longrightarrow>
      RunCmds [Enable, Configure, IpPrefixListPermit prefix_list_name n, End]
        \<notin> set (fst (iteration a n u (s, pl)))
      \<and> Syslog (msg_dead (host a)) \<notin> set (fst (iteration a n u (s, pl))))
   \<and> (\<not> wasAlive s \<and> \<not> alive t \<longrightarrow>
        iteration a n t (s, pl)
          = ([], Inr (s\<lparr>dampeningDead := dampeningDead s + 1, dampeningAlive := 0\<rparr>, pl)))
   \<and> (\<not> wasAlive s \<and> ts \<noteq> [] \<and> (\<forall>t\<in>set ts. \<not> alive t) \<longrightarrow>
        loop a n ts (s, pl)
          = ([], Inr (s\<lparr>dampeningDead := dampeningDead s + int (length ts), dampeningAlive := 0\<rparr>, pl)))
   \<and> distinct_adj (transitions a (fst (loop a n us (s, pl))))
   \<and> (\<not> wasAlive s \<and> transitions a (fst (loop a n us (s, pl))) \<noteq> [] \<longrightarrow>
        hd (transitions a (fst (loop a n us (s, pl)))) = Syslog (msg_available (host a)))
   \<and> (startup a sk pl = (fx0, Inr (n, s0)) \<and> (\<exists>e\<in>set (entries_of pl prefix_list_name). prefix e = n) \<longrightarrow>
        \<not> wasAlive s0)"
  using iteration_dead_no_insert [of s n a u pl] iteration_dead_silent [of s t a n pl]
    loop_unreachable [of s ts a n pl] loop_transitions [of a n us s pl]
    startup_filtered [of a sk pl fx0 n s0]
  by simp

text \<open>
  Dampening 3 and a prefix-list that already holds the /31: start-up leaves \<open>wasAlive\<close>
  false, four unreachable results change the counter only, and a resurrection followed
  by four unreachable results gives one dead notice.
\<close>

theorem dead_stays_silent_witness:
  "loop \<lparr>host = ''10.0.0.5'', dampening = 3\<rparr> ''10.0.0.4/31'' [Unreachable, Unreachable, Unreachable, Unreachable]
     (\<lparr>dampeningDead = 0, dampeningAlive = 0, wasAlive = False\<rparr>,
      [prefix_list_name \<mapsto> [\<lparr>prefix = ''10.0.0.4/31'', seqno = 10\<rparr>]])
   = ([], Inr (\<lparr>dampeningDead = 4, dampeningAlive = 0, wasAlive = False\<rparr>,
          [prefix_list_name \<mapsto> [\<lparr>prefix = ''10.0.0.4/31'', seqno = 10\<rparr>]]))
   \<and> startup \<lparr>host = ''10.0.0.5'', dampening = 3\<rparr> True
        [prefix_list_name \<mapsto> [\<lparr>prefix = ''10.0.0.4/31'', seqno = 10\<rparr>]]
      = ([RunCmds [ShowIpPrefixList prefix_list_name]],
         Inr (''10.0.0.4/31'', \<lparr>dampeningDead = 0, dampeningAlive = 0, wasAlive = False\<rparr>))
   \<and> transitions \<lparr>host = ''10.0.0.5'', dampening = 3\<rparr>
        (fst (loop \<lparr>host = ''10.0.0.5'', dampening = 3\<rparr> ''10.0.0.4/31''
               [Reachable, Reachable, Reachable, Reachable, Unreachable, Unreachable, Unreachable, Unreachable]
               (\<lparr>dampeningDead = 0, dampeningAlive = 0, wasAlive = False\<rparr>,
                [prefix_list_name \<mapsto> [\<lparr>prefix = ''10.0.0.4/31'', seqno = 10\<rparr>]])))
      = [Syslog (msg_available ''10.0.0.5''), Syslog (msg_dead ''10.0.0.5'')]
   \<and> Syslog (msg_dead ''10.0.0.5'')
        \<notin> set (fst (iteration \<lparr>host = ''10.0.0.5'', dampening = 3\<rparr> ''10.0.0.4/31'' Unreachable
             (\<lparr>dampeningDead = 0, dampeningAlive = 0, wasAlive = False\<rparr>,
              [prefix_list_name \<mapsto> [\<lparr>prefix = ''10.0.0.4/31'', seqno = 10\<rparr>]])))"
proof -
  let ?a = "\<lparr>host = ''10.0.0.5'', dampening = 3\<rparr>"
  let ?pl = "[prefix_list_name \<mapsto> [\<lparr>prefix = ''10.0.0.4/31'', seqno = 10\<rparr>]]"
  let ?s = "\<lparr>dampeningDead = 0, dampeningAlive = 0, wasAlive = False\<rparr>"
  let ?ts = "[Unreachable, Unreachable, Unreachable, Unreachable]"
  let ?us = "[Reachable, Reachable, Reachable, Reachable, Unreachable, Unreachable, Unreachable, Unreachable]"
  have st: "startup ?a True ?pl
      = ([RunCmds [ShowIpPrefixList prefix_list_name]], Inr (''10.0.0.4/31'', ?s))"
    by (simp add: startup_def net31_example store_defs show_reply_def)
  have h: "\<not> wasAlive ?s" "\<not> alive Unreachable" "?ts \<noteq> []" "\<forall>t\<in>set ?ts. \<not> alive t"
    "\<exists>e\<in>set (entries_of ?pl prefix_list_name). prefix e = ''10.0.0.4/31''"
    by (simp_all add: entries_of_def)
  have tr: "transitions ?a (fst (loop ?a ''10.0.0.4/31'' ?us (?s, ?pl)))
      = [Syslog (msg_available ''10.0.0.5''), Syslog (msg_dead ''10.0.0.5'')]"
    by (simp add: iteration_def store_defs show_reply_def runCmds_def Let_def transitions_def
        msg_dead_def msg_available_def msg_removed_def)
  note T = dead_stays_silent [of ?s "''10.0.0.4/31''" ?a Unreachable ?pl Unreachable ?ts ?us True
      "[RunCmds [ShowIpPrefixList prefix_list_name]]" ?s]
  from T h have "loop ?a ''10.0.0.4/31'' ?ts (?s, ?pl)
      = ([], Inr (?s\<lparr>dampeningDead := dampeningDead ?s + int (length ?ts), dampeningAlive := 0\<rparr>, ?pl))"
    by blast
  then have 1: "loop ?a ''10.0.0.4/31'' ?ts (?s, ?pl)
      = ([], Inr (\<lparr>dampeningDead = 4, dampeningAlive = 0, wasAlive = False\<rparr>, ?pl))"
    by (simp del: loop.simps)
  from T h(1) have 4: "Syslog (msg_dead ''10.0.0.5'')
      \<notin> set (fst (iteration ?a ''10.0.0.4/31'' Unreachable (?s, ?pl)))"
    by simp
  from 1 st tr 4 show ?thesis by (simp del: loop.simps)
qed

text \<open>
  Claim C1, evaluated. Dampening 2 and a start that finds the entry of the /31 (believed
  dead): the results reachable, unreachable, reachable, reachable send no notice and leave
  \<open>wasAlive\<close> false with the recovery count at 2; the resurrection comes with one more
  reachable result, the third in a row.
\<close>

theorem resurrection_needs_one_more:
  "main \<lparr>host = ''10.0.0.5'', dampening = 2\<rparr> True
     [prefix_list_name \<mapsto> [\<lparr>prefix = ''10.0.0.4/31'', seqno = 10\<rparr>]]
     [Reachable, Unreachable, Reachable, Reachable]
   = ([RunCmds [ShowIpPrefixList prefix_list_name]],
      Inr (\<lparr>dampeningDead = 0, dampeningAlive = 2, wasAlive = False\<rparr>,
           [prefix_list_name \<mapsto> [\<lparr>prefix = ''10.0.0.4/31'', seqno = 10\<rparr>]]))
   \<and> fst (main \<lparr>host = ''10.0.0.5'', dampening = 2\<rparr> True
        [prefix_list_name \<mapsto> [\<lparr>prefix = ''10.0.0.4/31'', seqno = 10\<rparr>]]
        [Reachable, Unreachable, Reachable, Reachable, Reachable])
     = [RunCmds [ShowIpPrefixList prefix_list_name],
        Syslog (msg_available ''10.0.0.5''),
        RunCmds [ShowIpPrefixList prefix_list_name],
        RunCmds [Enable, Configure, NoIpPrefixListSeq prefix_list_name 10, End],
        Syslog (msg_removed ''10.0.0.5'')]"
proof -
  let ?a = "\<lparr>host = ''10.0.0.5'', dampening = 2\<rparr>"
  let ?pl = "[prefix_list_name \<mapsto> [\<lparr>prefix = ''10.0.0.4/31'', seqno = 10\<rparr>]]"
  have st: "startup ?a True ?pl
      = ([RunCmds [ShowIpPrefixList prefix_list_name]],
         Inr (''10.0.0.4/31'', \<lparr>dampeningDead = 0, dampeningAlive = 0, wasAlive = False\<rparr>))"
    by (simp add: startup_def net31_example store_defs show_reply_def)
  show ?thesis
    by (simp add: main_def st iteration_def store_defs show_reply_def runCmds_def Let_def)
qed

section \<open>Start-up and the prefix-list\<close>

text \<open>
  Claim C4, as the code has it. The query at start-up only reads the prefix-list (one
  \<open>show\<close> command, the prefix-lists unchanged), and it sets the believed state:
  \<open>wasAlive\<close> stays true when no entry has the /31 of the target and becomes false
  when one has.
\<close>

theorem startup_reconciliation:
  assumes "network_s31 (host a) = Inr net31"
  shows "startup a True pl =
           ([RunCmds [ShowIpPrefixList prefix_list_name]],
            Inr (net31, \<lparr>dampeningDead = 0, dampeningAlive = 0,
                         wasAlive = (\<not> (\<exists>e\<in>set (entries_of pl prefix_list_name). prefix e = net31))\<rparr>))
       \<and> main a True pl [] =
           ([RunCmds [ShowIpPrefixList prefix_list_name]],
            Inr (\<lparr>dampeningDead = 0, dampeningAlive = 0,
                  wasAlive = (\<not> (\<exists>e\<in>set (entries_of pl prefix_list_name). prefix e = net31))\<rparr>, pl))"
  using assms by (simp add: main_def startup_def check_filter_entries)

text \<open>With no prefix-list on the switch the target is believed alive.\<close>

theorem startup_reconciliation_witness:
  "main \<lparr>host = ''10.0.0.5'', dampening = 3\<rparr> True Map.empty []
     = ([RunCmds [ShowIpPrefixList prefix_list_name]],
        Inr (\<lparr>dampeningDead = 0, dampeningAlive = 0, wasAlive = True\<rparr>, Map.empty))"
  using startup_reconciliation [of "\<lparr>host = ''10.0.0.5'', dampening = 3\<rparr>" "''10.0.0.4/31''" Map.empty]
  by (simp add: net31_example entries_of_def)

text \<open>
  Claim C4 as stated fails: with an entry for \<open>10.0.0.4/31\<close> in the prefix-list,
  start-up for host \<open>10.0.0.5\<close> ends with \<open>wasAlive\<close> false.
\<close>

theorem startup_believes_dead_counterexample:
  "startup \<lparr>host = ''10.0.0.5'', dampening = 3\<rparr> True
     [prefix_list_name \<mapsto> [\<lparr>prefix = ''10.0.0.4/31'', seqno = 10\<rparr>]]
   = ([RunCmds [ShowIpPrefixList prefix_list_name]],
      Inr (''10.0.0.4/31'', \<lparr>dampeningDead = 0, dampeningAlive = 0, wasAlive = False\<rparr>))"
  by (simp add: startup_def net31_example store_defs show_reply_def)

section \<open>The filter on the two transitions\<close>

text \<open>
  Claim C3, as the code has it. The iteration that declares the target dead sends the
  notice and the permit command, without a \<open>show\<close> command before; the prefix-list
  gains one entry for the /31 whatever it held, so one that held none holds exactly one.
\<close>

theorem dead_transition_inserts:
  assumes "wasAlive s" "\<not> alive t" "dampening a \<le> dampeningDead s + 1" "sock t"
  shows "fst (iteration a n t (s, pl)) =
           [Syslog (msg_dead (host a)),
            RunCmds [Enable, Configure, IpPrefixListPermit prefix_list_name n, End]]
       \<and> (\<exists>s' pl'. snd (iteration a n t (s, pl)) = Inr (s', pl')
            \<and> entries_of pl' prefix_list_name
                = entries_of pl prefix_list_name
                  @ [\<lparr>prefix = n, seqno = next_seqno (entries_of pl prefix_list_name)\<rparr>]
            \<and> length (filter (\<lambda>e. prefix e = n) (entries_of pl' prefix_list_name))
                = length (filter (\<lambda>e. prefix e = n) (entries_of pl prefix_list_name)) + 1)"
  using assms by (simp add: iteration_becomes_dead runCmds_permit) (simp add: entries_of_def)

text \<open>Dampening 1, believed alive, one unreachable result.\<close>

theorem dead_transition_inserts_witness:
  "fst (iteration \<lparr>host = ''10.0.0.5'', dampening = 1\<rparr> ''10.0.0.4/31'' Unreachable
          (\<lparr>dampeningDead = 0, dampeningAlive = 0, wasAlive = True\<rparr>, Map.empty))
     = [Syslog (msg_dead ''10.0.0.5''),
        RunCmds [Enable, Configure, IpPrefixListPermit prefix_list_name ''10.0.0.4/31'', End]]"
  using dead_transition_inserts [of "\<lparr>dampeningDead = 0, dampeningAlive = 0, wasAlive = True\<rparr>"
      Unreachable "\<lparr>host = ''10.0.0.5'', dampening = 1\<rparr>" "''10.0.0.4/31''" Map.empty]
  by simp

text \<open>
  Claim C3 as stated fails: with the entry already in the prefix-list the dead transition
  sends the permit command all the same and a second entry appears; \<open>add_filter\<close> twice in
  succession, from a switch without the prefix-list, leaves two entries.
\<close>

theorem ensure_filtered_counterexample:
  "iteration \<lparr>host = ''10.0.0.5'', dampening = 1\<rparr> ''10.0.0.4/31'' Unreachable
     (\<lparr>dampeningDead = 0, dampeningAlive = 0, wasAlive = True\<rparr>,
      [prefix_list_name \<mapsto> [\<lparr>prefix = ''10.0.0.4/31'', seqno = 10\<rparr>]])
   = ([Syslog (msg_dead ''10.0.0.5''),
       RunCmds [Enable, Configure, IpPrefixListPermit prefix_list_name ''10.0.0.4/31'', End]],
      Inr (\<lparr>dampeningDead = 1, dampeningAlive = 0, wasAlive = False\<rparr>,
           [prefix_list_name \<mapsto> [\<lparr>prefix = ''10.0.0.4/31'', seqno = 10\<rparr>,
                                  \<lparr>prefix = ''10.0.0.4/31'', seqno = 20\<rparr>]]))
   \<and> add_filter True Map.empty ''10.0.0.4/31'' prefix_list_name
     = ([RunCmds [Enable, Configure, IpPrefixListPermit prefix_list_name ''10.0.0.4/31'', End]],
        Inr [prefix_list_name \<mapsto> [\<lparr>prefix = ''10.0.0.4/31'', seqno = 10\<rparr>]])
   \<and> add_filter True [prefix_list_name \<mapsto> [\<lparr>prefix = ''10.0.0.4/31'', seqno = 10\<rparr>]]
        ''10.0.0.4/31'' prefix_list_name
     = ([RunCmds [Enable, Configure, IpPrefixListPermit prefix_list_name ''10.0.0.4/31'', End]],
        Inr [prefix_list_name \<mapsto> [\<lparr>prefix = ''10.0.0.4/31'', seqno = 10\<rparr>,
                                   \<lparr>prefix = ''10.0.0.4/31'', seqno = 20\<rparr>]])"
  by (simp add: iteration_def store_defs runCmds_def next_seqno_def Let_def)

text \<open>
  Claim C6. The iteration that declares the target resurrected (socket present) sends the
  notice and lists the prefix-list; with no entry for the /31 it does nothing more and
  returns normally, the prefix-lists unchanged; with one it sends the \<open>no ... seq\<close> command
  with the sequence number of the entry found (the last matching one) and the switch
  drops the entry of that number.
\<close>

theorem resurrection_removes_by_seqno:
  assumes "alive t" "\<not> wasAlive s" "dampeningAlive s = dampening a" "sock t"
  shows "iteration a n t (s, pl) =
     (let es = entries_of pl prefix_list_name;
          k = seqno (last (filter (\<lambda>e. prefix e = n) es));
          s' = s\<lparr>dampeningDead := 0, wasAlive := True, dampeningAlive := 0\<rparr>
      in if \<exists>e\<in>set es. prefix e = n
         then ([Syslog (msg_available (host a)),
                RunCmds [ShowIpPrefixList prefix_list_name],
                RunCmds [Enable, Configure, NoIpPrefixListSeq prefix_list_name k, End],
                Syslog (msg_removed (host a))],
               Inr (s', pl(prefix_list_name \<mapsto> filter (\<lambda>e. seqno e \<noteq> k) es)))
         else ([Syslog (msg_available (host a)), RunCmds [ShowIpPrefixList prefix_list_name]],
               Inr (s', pl)))"
proof (cases "\<exists>e\<in>set (entries_of pl prefix_list_name). prefix e = n")
  case True
  then obtain es where "pl prefix_list_name = Some es"
    by (cases "pl prefix_list_name") (auto simp add: entries_of_def)
  with True assms show ?thesis
    by (auto simp add: iteration_def check_filter_entries remove_filter_def build_connection_def
        runCmds_no_seq Let_def entries_of_def)
next
  case False
  with assms show ?thesis
    by (simp add: iteration_def check_filter_entries Let_def)
qed

text \<open>A prefix-list with the /31 at sequence number 10, and a switch without the list.\<close>

theorem resurrection_removes_by_seqno_witness:
  "iteration \<lparr>host = ''10.0.0.5'', dampening = 2\<rparr> ''10.0.0.4/31'' Reachable
     (\<lparr>dampeningDead = 0, dampeningAlive = 2, wasAlive = False\<rparr>,
      [prefix_list_name \<mapsto> [\<lparr>prefix = ''10.0.0.4/31'', seqno = 10\<rparr>, \<lparr>prefix = ''10.0.0.6/31'', seqno = 20\<rparr>]])
   = ([Syslog (msg_available ''10.0.0.5''),
       RunCmds [ShowIpPrefixList prefix_list_name],
       RunCmds [Enable, Configure, NoIpPrefixListSeq prefix_list_name 10, End],
       Syslog (msg_removed ''10.0.0.5'')],
      Inr (\<lparr>dampeningDead = 0, dampeningAlive = 0, wasAlive = True\<rparr>,
           [prefix_list_name \<mapsto> [\<lparr>prefix = ''10.0.0.6/31'', seqno = 20\<rparr>]]))
   \<and> iteration \<lparr>host = ''10.0.0.5'', dampening = 2\<rparr> ''10.0.0.4/31'' Reachable
     (\<lparr>dampeningDead = 0, dampeningAlive = 2, wasAlive = False\<rparr>, Map.empty)
   = ([Syslog (msg_available ''10.0.0.5''), RunCmds [ShowIpPrefixList prefix_list_name]],
      Inr (\<lparr>dampeningDead = 0, dampeningAlive = 0, wasAlive = True\<rparr>, Map.empty))"
proof -
  let ?a = "\<lparr>host = ''10.0.0.5'', dampening = 2\<rparr>"
  let ?s = "\<lparr>dampeningDead = 0, dampeningAlive = 2, wasAlive = False\<rparr>"
  have h: "alive Reachable" "\<not> wasAlive ?s" "dampeningAlive ?s = dampening ?a" "sock Reachable"
    by simp_all
  from resurrection_removes_by_seqno [OF h, of "''10.0.0.4/31''"
      "[prefix_list_name \<mapsto> [\<lparr>prefix = ''10.0.0.4/31'', seqno = 10\<rparr>, \<lparr>prefix = ''10.0.0.6/31'', seqno = 20\<rparr>]]"]
    resurrection_removes_by_seqno [OF h, of "''10.0.0.4/31''" Map.empty]
  show ?thesis by (simp add: entries_of_def Let_def)
qed

text \<open>
  Claim C9. When the reply has no prefix-list of the name, \<open>check_filter\<close> returns
  \<open>(False, 0)\<close>, as it does for a list without entries, and an iteration has the same
  effects, the same counters and the same resulting entries as with the empty list.
\<close>

theorem missing_list_is_empty:
  "(pl name = None \<longrightarrow>
      check_filter True pl n name = ([RunCmds [ShowIpPrefixList name]], Inr (False, 0))
      \<and> check_filter sk pl n name = check_filter sk (pl(name \<mapsto> [])) n name)
   \<and> (pl prefix_list_name = None \<longrightarrow>
      fst (iteration a n t (s, pl)) = fst (iteration a n t (s, pl(prefix_list_name \<mapsto> [])))
      \<and> map_sum id (\<lambda>(s', pl'). (s', entries_of pl' prefix_list_name)) (snd (iteration a n t (s, pl)))
        = map_sum id (\<lambda>(s', pl'). (s', entries_of pl' prefix_list_name))
            (snd (iteration a n t (s, pl(prefix_list_name \<mapsto> [])))))"
  by (auto simp add: iteration_def Let_def store_defs show_reply_def runCmds_def entries_of_def)

text \<open>A switch with no prefix-list at all.\<close>

theorem missing_list_is_empty_witness:
  "check_filter True Map.empty ''10.0.0.4/31'' prefix_list_name
     = ([RunCmds [ShowIpPrefixList prefix_list_name]], Inr (False, 0))
   \<and> check_filter True [prefix_list_name \<mapsto> []] ''10.0.0.4/31'' prefix_list_name
     = ([RunCmds [ShowIpPrefixList prefix_list_name]], Inr (False, 0))
   \<and> fst (iteration \<lparr>host = ''10.0.0.5'', dampening = 2\<rparr> ''10.0.0.4/31'' Reachable
          (\<lparr>dampeningDead = 0, dampeningAlive = 2, wasAlive = False\<rparr>, [prefix_list_name \<mapsto> []]))
     = [Syslog (msg_available ''10.0.0.5''), RunCmds [ShowIpPrefixList prefix_list_name]]"
proof -
  let ?a = "\<lparr>host = ''10.0.0.5'', dampening = 2\<rparr>"
  let ?s = "\<lparr>dampeningDead = 0, dampeningAlive = 2, wasAlive = False\<rparr>"
  have h: "(Map.empty :: prefix_lists) prefix_list_name = None" by simp
  note T = missing_list_is_empty [of Map.empty prefix_list_name "''10.0.0.4/31''" True ?a Reachable ?s]
  from T h have 1: "check_filter True Map.empty ''10.0.0.4/31'' prefix_list_name
     = ([RunCmds [ShowIpPrefixList prefix_list_name]], Inr (False, 0))"
    and 2: "check_filter True Map.empty ''10.0.0.4/31'' prefix_list_name
     = check_filter True [prefix_list_name \<mapsto> []] ''10.0.0.4/31'' prefix_list_name"
    and 3: "fst (iteration ?a ''10.0.0.4/31'' Reachable (?s, Map.empty))
        = fst (iteration ?a ''10.0.0.4/31'' Reachable (?s, [prefix_list_name \<mapsto> []]))"
    by blast+
  have 4: "fst (iteration ?a ''10.0.0.4/31'' Reachable (?s, Map.empty))
      = [Syslog (msg_available ''10.0.0.5''), RunCmds [ShowIpPrefixList prefix_list_name]]"
    by (simp add: iteration_def store_defs show_reply_def)
  from 1 2 3 4 show ?thesis by simp
qed

section \<open>Failures of the command API in the loop\<close>

text \<open>
  Claim C5, as the code has it. An iteration ends with an error exactly when the API
  socket is missing and the iteration performs a transition (the list and remove of a
  resurrection, the insert of a death); the error is the exit of \<open>build_connection\<close>,
  and it ends the loop: the later probe results are not processed.
\<close>

theorem store_failure_ends_loop:
  "((\<exists>e. snd (iteration a n t (s, pl)) = Inl e)
     \<longleftrightarrow> \<not> sock t \<and> ((alive t \<and> \<not> wasAlive s \<and> dampeningAlive s = dampening a)
                      \<or> (\<not> alive t \<and> wasAlive s \<and> dampening a \<le> dampeningDead s + 1)))
   \<and> (\<forall>e. snd (iteration a n t (s, pl)) = Inl e \<longrightarrow>
         e = SystemExit socket_message
         \<and> loop a n (t # ts) (s, pl) = (fst (iteration a n t (s, pl)), Inl e))"
  using iteration_error_iff [of a n t s pl] iteration_error_exit [of a n t s pl]
    loop_error_stops [of a n t "(s, pl)" _ ts]
  by blast

text \<open>The third consecutive failure with dampening 3 and the socket gone.\<close>

theorem store_failure_ends_loop_witness:
  "loop \<lparr>host = ''10.0.0.5'', dampening = 3\<rparr> ''10.0.0.4/31''
     [\<lparr>alive = False, sock = False\<rparr>, Reachable]
     (\<lparr>dampeningDead = 2, dampeningAlive = 0, wasAlive = True\<rparr>, Map.empty)
   = ([Syslog (msg_dead ''10.0.0.5'')], Inl (SystemExit socket_message))"
proof -
  let ?a = "\<lparr>host = ''10.0.0.5'', dampening = 3\<rparr>"
  let ?t = "\<lparr>alive = False, sock = False\<rparr>"
  let ?s = "\<lparr>dampeningDead = 2, dampeningAlive = 0, wasAlive = True\<rparr>"
  note T = store_failure_ends_loop [of ?a "''10.0.0.4/31''" ?t ?s Map.empty "[Reachable]"]
  have "\<not> sock ?t \<and> ((alive ?t \<and> \<not> wasAlive ?s \<and> dampeningAlive ?s = dampening ?a)
                      \<or> (\<not> alive ?t \<and> wasAlive ?s \<and> dampening ?a \<le> dampeningDead ?s + 1))"
    by simp
  with T obtain e where e: "snd (iteration ?a ''10.0.0.4/31'' ?t (?s, Map.empty)) = Inl e"
    by blast
  with T have "e = SystemExit socket_message"
    and "loop ?a ''10.0.0.4/31'' [?t, Reachable] (?s, Map.empty)
           = (fst (iteration ?a ''10.0.0.4/31'' ?t (?s, Map.empty)), Inl e)"
    by blast+
  moreover have "fst (iteration ?a ''10.0.0.4/31'' ?t (?s, Map.empty)) = [Syslog (msg_dead ''10.0.0.5'')]"
    by (simp add: iteration_def store_defs)
  ultimately show ?thesis by (simp del: loop.simps)
qed

text \<open>
  Claim C5 as stated fails: start-up succeeds, the socket disappears, and the iteration
  of the dead transition terminates the process after the notice; the two reachable
  results that follow are never seen.
\<close>

theorem steady_state_exit_counterexample:
  "main \<lparr>host = ''10.0.0.5'', dampening = 3\<rparr> True Map.empty
     [Unreachable, Unreachable, \<lparr>alive = False, sock = False\<rparr>, Reachable, Reachable]
   = ([RunCmds [ShowIpPrefixList prefix_list_name], Syslog (msg_dead ''10.0.0.5'')],
      Inl (SystemExit socket_message))"
proof -
  have st: "startup \<lparr>host = ''10.0.0.5'', dampening = 3\<rparr> True Map.empty
      = ([RunCmds [ShowIpPrefixList prefix_list_name]],
         Inr (''10.0.0.4/31'', \<lparr>dampeningDead = 0, dampeningAlive = 0, wasAlive = True\<rparr>))"
    by (simp add: startup_def net31_example store_defs show_reply_def)
  show ?thesis
    by (simp add: main_def st iteration_def store_defs)
qed

end
